theory Spec2Isabelle
  imports Main "HOL-Library.Word" "HOL-Library.Finite_Map"
begin

section \<open>memCache: an in-process key-value store with expiring entries\<close>

text \<open>
  The development embeds \<^verbatim>\<open>memCache.go\<close>: the types \<^verbatim>\<open>Cache\<close> and \<^verbatim>\<open>Item\<close>, the
  constructor \<^verbatim>\<open>New\<close>, the methods \<^verbatim>\<open>Set\<close>, \<^verbatim>\<open>Get\<close>, \<^verbatim>\<open>GetAll\<close>, \<^verbatim>\<open>Delete\<close>,
  \<^verbatim>\<open>Count\<close>, and the collector \<^verbatim>\<open>GC\<close> with its helpers \<^verbatim>\<open>expiredKeys\<close> and
  \<^verbatim>\<open>clearItems\<close>.

  Every method runs its body under the cache's \<^verbatim>\<open>sync.RWMutex\<close>, so a method is one atomic
  step on the cache; the lock itself is not part of the state. A method is a function from
  the cache (and what it reads from the environment) to its result and the cache it leaves.
\<close>

subsection \<open>Machine integers and the clock\<close>

text \<open>
  \<^verbatim>\<open>int64\<close> is a 64-bit word read in two's complement: \<open>+\<close> wraps, and the comparisons of
  the source are the signed ones (\<open><s\<close>). A \<^verbatim>\<open>time.Duration\<close> is an \<^verbatim>\<open>int64\<close> count of
  nanoseconds. A reading of \<^verbatim>\<open>time.Now()\<close> is represented by its \<^verbatim>\<open>UnixNano()\<close>, the only
  way the cache ever inspects a time; \<^verbatim>\<open>t.Add(d).UnixNano()\<close> is then the \<^verbatim>\<open>int64\<close> sum
  (Go's \<^verbatim>\<open>UnixNano\<close> computes its result in \<^verbatim>\<open>int64\<close> arithmetic, so a time that lies
  beyond the year 2262 comes out wrapped).
\<close>

type_synonym int64 = "64 word"
type_synonym Duration = int64
type_synonym Time = int64

definition Add :: "Time \<Rightarrow> Duration \<Rightarrow> Time" where
  "Add t d = t + d"

definition UnixNano :: "Time \<Rightarrow> int64" where
  "UnixNano t = t"

subsection \<open>Values, errors and Go maps\<close>

text \<open>
  A value of type \<^verbatim>\<open>interface{}\<close> is either \<^verbatim>\<open>nil\<close> or some dynamic value. \<^verbatim>\<open>Get\<close>
  returns \<^verbatim>\<open>nil\<close> beside \<^verbatim>\<open>false\<close>.
\<close>

datatype 'v interface = nil | dyn 'v

text \<open>The value \<^verbatim>\<open>errors.New(s)\<close>; a returned \<^verbatim>\<open>error\<close> is \<open>None\<close> when it is \<^verbatim>\<open>nil\<close>.\<close>

datatype error = errors_New string

text \<open>The run-time panic of Go on a write through a \<^verbatim>\<open>nil\<close> map.\<close>

datatype panic = assignment_to_entry_in_nil_map

text \<open>
  A Go map is \<^verbatim>\<open>nil\<close> (\<open>None\<close>) or a finite map. Reading a \<^verbatim>\<open>nil\<close> map finds nothing, its
  length is 0, deleting from it does nothing, and assigning to it panics.
\<close>

type_synonym ('k, 'v) gomap = "('k, 'v) fmap option"

definition make_map :: "('k, 'v) gomap" where
  "make_map = Some fmempty"

definition map_index :: "('k, 'v) gomap \<Rightarrow> 'k \<Rightarrow> 'v option" where
  "map_index m k = (case m of None \<Rightarrow> None | Some f \<Rightarrow> fmlookup f k)"

definition map_assign :: "('k, 'v) gomap \<Rightarrow> 'k \<Rightarrow> 'v \<Rightarrow> panic + ('k, 'v) gomap" where
  "map_assign m k v =
     (case m of None \<Rightarrow> Inl assignment_to_entry_in_nil_map
      | Some f \<Rightarrow> Inr (Some (fmupd k v f)))"

definition map_delete :: "('k, 'v) gomap \<Rightarrow> 'k \<Rightarrow> ('k, 'v) gomap" where
  "map_delete m k = (case m of None \<Rightarrow> None | Some f \<Rightarrow> Some (fmdrop k f))"

definition map_len :: "('k, 'v) gomap \<Rightarrow> nat" where
  "map_len m = (case m of None \<Rightarrow> 0 | Some f \<Rightarrow> fcard (fmdom f))"

text \<open>
  \<^verbatim>\<open>for k, v := range m\<close> visits every entry of the map once, in an order the run time
  chooses. A loop over a map is therefore a recursion over the list \<open>es\<close> of the entries in
  the order of the visit, and \<open>map_range m es\<close> says that \<open>es\<close> is such a visit of \<open>m\<close>.
\<close>

definition map_range :: "('k, 'v) gomap \<Rightarrow> ('k \<times> 'v) list \<Rightarrow> bool" where
  "map_range m es \<longleftrightarrow>
     distinct (map fst es) \<and>
     fmap_of_list es = (case m of None \<Rightarrow> fmempty | Some f \<Rightarrow> f)"

subsection \<open>The cache\<close>

record 'v Item =
  Value :: "'v interface"
  Created :: Time
  Expiration :: int64

record 'v Cache =
  defaultExpiration :: Duration
  cleanupInterval :: Duration
  items :: "(string, 'v Item) gomap"

text \<open>
  \<^verbatim>\<open>New\<close> returns the cache and starts the collector (\<^verbatim>\<open>go c.GC()\<close>) when the cleanup
  interval is positive; the second component says whether it did.
\<close>

definition New :: "Duration \<Rightarrow> Duration \<Rightarrow> 'v Cache \<times> bool" where
  "New defaultExpiration' cleanupInterval' =
     (let cache = \<lparr>defaultExpiration = defaultExpiration',
                   cleanupInterval = cleanupInterval',
                   items = make_map\<rparr>
      in (cache, 0 <s cleanupInterval'))"

text \<open>
  \<^verbatim>\<open>Set\<close> reads the clock twice: \<open>now\<close> for the expiration, \<open>now'\<close> for \<^verbatim>\<open>Created\<close>.
\<close>

definition Set :: "Time \<Rightarrow> Time \<Rightarrow> 'v Cache \<Rightarrow> string \<Rightarrow> 'v interface \<Rightarrow> Duration
    \<Rightarrow> panic + 'v Cache" where
  "Set now now' c key val duration =
     (let duration = (if duration = 0 then defaultExpiration c else duration);
          expiration = (if 0 <s duration then UnixNano (Add now duration) else 0)
      in case map_assign (items c) key
                \<lparr>Value = val, Created = now', Expiration = expiration\<rparr> of
           Inl p \<Rightarrow> Inl p
         | Inr m \<Rightarrow> Inr (c\<lparr>items := m\<rparr>))"

definition Get :: "Time \<Rightarrow> 'v Cache \<Rightarrow> string \<Rightarrow> ('v interface \<times> bool) \<times> 'v Cache" where
  "Get now c key =
     (case map_index (items c) key of
        None \<Rightarrow> ((nil, False), c)
      | Some item \<Rightarrow>
          if 0 <s Expiration item
          then if Expiration item <s UnixNano now
               then ((nil, False), c)
               else ((Value item, True), c)
          else ((Value item, True), c))"

text \<open>
  \<^verbatim>\<open>GetAll\<close> fills a map it has just made, so that map is never \<^verbatim>\<open>nil\<close> and the
  assignments cannot panic: the local \<^verbatim>\<open>allItems\<close> is a finite map.
\<close>

fun GetAll_loop :: "(string \<times> 'v Item) list \<Rightarrow> (string, 'v interface) fmap
    \<Rightarrow> (string, 'v interface) fmap" where
  "GetAll_loop [] allItems = allItems"
| "GetAll_loop ((k, v) # es) allItems = GetAll_loop es (fmupd k (Value v) allItems)"

definition GetAll :: "(string \<times> 'v Item) list \<Rightarrow> 'v Cache
    \<Rightarrow> (string, 'v interface) fmap \<times> 'v Cache" where
  "GetAll es c = (GetAll_loop es fmempty, c)"

definition Delete :: "'v Cache \<Rightarrow> string \<Rightarrow> error option \<times> 'v Cache" where
  "Delete c key =
     (case map_index (items c) key of
        None \<Rightarrow> (Some (errors_New ''Key not found''), c)
      | Some _ \<Rightarrow> (None, c\<lparr>items := map_delete (items c) key\<rparr>))"

definition Count :: "'v Cache \<Rightarrow> int \<times> 'v Cache" where
  "Count c = (int (map_len (items c)), c)"

subsection \<open>The collector\<close>

text \<open>
  \<^verbatim>\<open>expiredKeys\<close> appends to the slice \<^verbatim>\<open>keys\<close> (at first \<^verbatim>\<open>nil\<close>, the empty list) the key
  of each visited entry that the test selects. The test reads the clock anew at every
  entry, so the visit \<open>tes\<close> of a scan pairs each entry with the reading taken at it. A
  scan for which the clock stands at \<open>now\<close> throughout is a visit \<open>at now es\<close>.
\<close>

fun expiredKeys_loop :: "(Time \<times> string \<times> 'v Item) list \<Rightarrow> string list \<Rightarrow> string list" where
  "expiredKeys_loop [] keys = keys"
| "expiredKeys_loop ((now, k, i) # tes) keys =
     (if Expiration i <s UnixNano now \<and> 0 <s Expiration i
      then expiredKeys_loop tes (keys @ [k])
      else expiredKeys_loop tes keys)"

definition expiredKeys :: "(Time \<times> string \<times> 'v Item) list \<Rightarrow> 'v Cache
    \<Rightarrow> string list \<times> 'v Cache" where
  "expiredKeys tes c = (expiredKeys_loop tes [], c)"

definition at :: "Time \<Rightarrow> ('k \<times> 'v) list \<Rightarrow> (Time \<times> 'k \<times> 'v) list" where
  "at now es = map (Pair now) es"

fun clearItems_loop :: "string list \<Rightarrow> (string, 'v Item) gomap \<Rightarrow> (string, 'v Item) gomap" where
  "clearItems_loop [] m = m"
| "clearItems_loop (k # keys) m = clearItems_loop keys (map_delete m k)"

definition clearItems :: "string list \<Rightarrow> 'v Cache \<Rightarrow> 'v Cache" where
  "clearItems keys c = c\<lparr>items := clearItems_loop keys (items c)\<rparr>"

text \<open>
  One turn of the loop of \<^verbatim>\<open>GC\<close>, after the timer has fired: \<open>None\<close> is the \<^verbatim>\<open>return\<close> on
  a \<^verbatim>\<open>nil\<close> map, \<open>Some\<close> the cache with which the loop goes on.
\<close>

definition GC_body :: "(Time \<times> string \<times> 'v Item) list \<Rightarrow> 'v Cache \<Rightarrow> 'v Cache option" where
  "GC_body tes c =
     (if items c = None then None
      else let keys = fst (expiredKeys tes c)
           in if length keys \<noteq> 0 then Some (clearItems keys c) else Some c)"

text \<open>
  The loop \<^verbatim>\<open>for { ... }\<close> of \<^verbatim>\<open>GC\<close> has no exit but that \<^verbatim>\<open>return\<close>. It is run against the
  list of its wake-ups, each given by the visit of its scan: when the list is used up the
  collector is \<open>Running\<close>, waiting for the timer; \<open>Returned\<close> says that it has left the
  loop.
\<close>

datatype 'v gc = Returned "'v Cache" | Running "'v Cache"

fun GC :: "(Time \<times> string \<times> 'v Item) list list \<Rightarrow> 'v Cache \<Rightarrow> 'v gc" where
  "GC [] c = Running c"
| "GC (tes # wakes) c =
     (case GC_body tes c of
        None \<Rightarrow> Returned c
      | Some c' \<Rightarrow> GC wakes c')"

text \<open>
  The caches a program can hold: the one \<^verbatim>\<open>New\<close> returns, and what the methods and the
  two steps of the collector leave of such a cache, in any interleaving. A call of \<^verbatim>\<open>Set\<close>
  that panics leaves none.
\<close>

inductive reachable :: "'v Cache \<Rightarrow> bool" where
  reachable_New: "reachable (fst (New d ci))"
| reachable_Set: "reachable c \<Longrightarrow> Set now now' c key val d = Inr c' \<Longrightarrow> reachable c'"
| reachable_Get: "reachable c \<Longrightarrow> reachable (snd (Get now c key))"
| reachable_GetAll: "reachable c \<Longrightarrow> reachable (snd (GetAll es c))"
| reachable_Delete: "reachable c \<Longrightarrow> reachable (snd (Delete c key))"
| reachable_Count: "reachable c \<Longrightarrow> reachable (snd (Count c))"
| reachable_expiredKeys: "reachable c \<Longrightarrow> reachable (snd (expiredKeys tes c))"
| reachable_clearItems: "reachable c \<Longrightarrow> reachable (clearItems keys c)"

subsection \<open>A sample cache\<close>

text \<open>
  A cache with three entries, used to run the theorems on concrete data: at the instant
  100 the entry \<open>old\<close> has expired, \<open>live\<close> has not, and \<open>keep\<close> never expires.
\<close>

definition sample_entries :: "(string \<times> int Item) list" where
  "sample_entries =
     [(''live'', \<lparr>Value = dyn 1, Created = 10, Expiration = 200\<rparr>),
      (''old'', \<lparr>Value = dyn 2, Created = 20, Expiration = 50\<rparr>),
      (''keep'', \<lparr>Value = dyn 3, Created = 30, Expiration = 0\<rparr>)]"

definition sample_cache :: "int Cache" where
  "sample_cache =
     \<lparr>defaultExpiration = 300, cleanupInterval = 60,
      items = Some (fmap_of_list sample_entries)\<rparr>"

section \<open>Properties\<close>

subsection \<open>Auxiliary facts\<close>

text \<open>Signed addition on \<^verbatim>\<open>int64\<close>: exact while the sum fits, and 2^64 less above.\<close>

lemma int64_lower: "- (2 ^ 63) \<le> sint (t :: int64)"
  using sint_ge [of t] by simp

lemma int64_upper: "sint (t :: int64) < 2 ^ 63"
  using sint_lt [of t] by simp

lemma sint_add_exact:
  fixes t d :: int64
  assumes "sint t + sint d < 2 ^ 63" and "- (2 ^ 63) \<le> sint t + sint d"
  shows "sint (t + d) = sint t + sint d"
  using assms by (simp add: sint_word_ariths signed_take_bit_int_eq_self)

lemma sint_add_wrapped:
  fixes t d :: int64
  assumes ge: "2 ^ 63 \<le> sint t + sint d"
  shows "sint (t + d) = sint t + sint d - 2 ^ 64"
proof -
  let ?k = "sint t + sint d"
  have "(?k + 2 ^ 63) mod 2 ^ 64 = (?k + 2 ^ 63 - 2 ^ 64) mod 2 ^ 64"
    by (simp only: minus_mod_self2)
  also have "\<dots> = ?k + 2 ^ 63 - 2 ^ 64"
    using ge int64_upper [of t] int64_upper [of d] by (intro mod_pos_pos_trivial) simp_all
  finally have "take_bit 64 (?k + 2 ^ 63) = ?k + 2 ^ 63 - 2 ^ 64"
    by (simp add: take_bit_eq_mod)
  then show ?thesis
    by (simp add: sint_word_ariths signed_take_bit_eq_take_bit_shift)
qed

lemma sint_add_pos:
  fixes t d :: int64
  assumes d: "0 < sint d" and s: "0 < sint (t + d)"
  shows "sint t < sint (t + d)"
proof (cases "sint t + sint d < 2 ^ 63")
  case True
  from d have "- (2 ^ 63) \<le> sint t + sint d"
    using int64_lower [of t] by linarith
  with True have "sint (t + d) = sint t + sint d" by (rule sint_add_exact)
  with d show ?thesis by linarith
next
  case False
  then have "sint (t + d) = sint t + sint d - 2 ^ 64"
    by (intro sint_add_wrapped) simp
  with int64_upper [of t] int64_upper [of d] have "sint (t + d) < 0" by simp
  with s show ?thesis by simp
qed

text \<open>A visit of a map meets exactly the map's entries.\<close>

lemma map_range_lookup:
  assumes "map_range m es"
  shows "map_index m k = map_of es k"
proof -
  from assms have "fmlookup (fmap_of_list es) k = map_index m k"
    by (simp add: map_range_def map_index_def split: option.splits)
  then show ?thesis by (simp add: fmlookup_of_list)
qed

lemma map_range_member:
  assumes "map_range m es"
  shows "(k, i) \<in> set es \<longleftrightarrow> map_index m k = Some i"
proof -
  from assms have "distinct (map fst es)" by (simp add: map_range_def)
  then show ?thesis
    using map_range_lookup [OF assms, of k] by (auto simp: map_of_eq_Some_iff)
qed

text \<open>The three loops.\<close>

lemma GetAll_loop_lookup:
  "distinct (map fst es) \<Longrightarrow>
   fmlookup (GetAll_loop es acc) k =
     (case map_of es k of None \<Rightarrow> fmlookup acc k | Some i \<Rightarrow> Some (Value i))"
proof (induction es arbitrary: acc)
  case Nil
  then show ?case by simp
next
  case (Cons e es)
  obtain k' v where e: "e = (k', v)" by (cases e)
  from Cons.prems e have notin: "k' \<notin> fst ` set es" and dist: "distinct (map fst es)"
    by simp_all
  from notin have none: "map_of es k' = None" by (simp add: map_of_eq_None_iff)
  show ?case
    using Cons.IH [OF dist, of "fmupd k' (Value v) acc"] none
    by (auto simp: e split: option.splits)
qed

lemma expiredKeys_loop_set:
  "set (expiredKeys_loop tes keys) =
     set keys \<union>
     {k. \<exists>now i. (now, k, i) \<in> set tes \<and> Expiration i <s UnixNano now \<and> 0 <s Expiration i}"
  by (induction tes keys rule: expiredKeys_loop.induct) auto

lemma expiredKeys_member:
  assumes "map_range (items c) es"
  shows "k \<in> set (fst (expiredKeys (at now es) c)) \<longleftrightarrow>
         (\<exists>i. map_index (items c) k = Some i \<and> 0 < sint (Expiration i) \<and>
              sint (Expiration i) < sint now)"
  using map_range_member [OF assms, of k]
  by (auto simp: expiredKeys_def expiredKeys_loop_set at_def UnixNano_def word_sless_alt)

lemma clearItems_loop_lookup:
  "map_index (clearItems_loop keys m) k = (if k \<in> set keys then None else map_index m k)"
  by (induction keys arbitrary: m)
    (auto simp: map_index_def map_delete_def split: option.splits)

lemma clearItems_loop_not_nil: "m \<noteq> None \<Longrightarrow> clearItems_loop keys m \<noteq> None"
  by (induction keys arbitrary: m) (auto simp: map_delete_def split: option.splits)

text \<open>
  No step assigns the field \<^verbatim>\<open>items\<close> anything but a map made from the one it holds, so
  every cache a program can hold has a map that is not \<^verbatim>\<open>nil\<close>.
\<close>

lemma reachable_items: "reachable c \<Longrightarrow> items c \<noteq> None"
proof (induction rule: reachable.induct)
  case (reachable_New d ci)
  show ?case by (simp add: New_def make_map_def)
next
  case (reachable_Set c now now' key val d c')
  then show ?case by (auto simp: Set_def map_assign_def Let_def split: option.splits)
next
  case (reachable_Get c now key)
  then show ?case by (simp add: Get_def split: option.splits)
next
  case (reachable_Delete c key)
  then show ?case by (auto simp: Delete_def map_delete_def split: option.splits)
next
  case (reachable_clearItems c keys)
  then show ?case by (simp add: clearItems_def clearItems_loop_not_nil)
qed (simp_all add: GetAll_def Count_def expiredKeys_def)

lemma GC_body_reachable:
  assumes "reachable c"
  shows "\<exists>c'. GC_body tes c = Some c' \<and> reachable c'"
  using assms reachable_items [OF assms]
  by (auto simp: GC_body_def Let_def intro: reachable_clearItems)

text \<open>The sample cache.\<close>

lemma sample_not_nil: "items sample_cache \<noteq> None"
  by (simp add: sample_cache_def)

lemma sample_range: "map_range (items sample_cache) sample_entries"
  by (simp add: sample_cache_def map_range_def sample_entries_def)

lemma sample_index:
  "map_index (items sample_cache) ''live'' = Some \<lparr>Value = dyn 1, Created = 10, Expiration = 200\<rparr>"
  "map_index (items sample_cache) ''old'' = Some \<lparr>Value = dyn 2, Created = 20, Expiration = 50\<rparr>"
  "map_index (items sample_cache) ''keep'' = Some \<lparr>Value = dyn 3, Created = 30, Expiration = 0\<rparr>"
  "map_index (items sample_cache) ''none'' = None"
  by (simp_all add: sample_cache_def sample_entries_def map_index_def)

section \<open>The claims\<close>

subsection \<open>Set\<close>

text \<open>
  Claim C1, as amended. On a cache whose map is not \<^verbatim>\<open>nil\<close> (every cache made by \<^verbatim>\<open>New\<close>
  is one), \<^verbatim>\<open>Set\<close> never fails. It leaves the configuration alone and binds the key to a
  new entry, whatever the key was bound to before, and no other key changes. A duration of
  0 is first replaced by the default expiration \<open>d'\<close>. When the resulting duration is
  positive the expiration is the \<^verbatim>\<open>int64\<close> sum of the clock reading and the duration: the
  timestamp \<open>now + d'\<close> itself as long as that is below 2^63, and otherwise that sum less
  2^64, which is negative. When the resulting duration is zero or negative the expiration
  is 0.
\<close>

theorem Set_stores_entry:
  assumes nn: "items c \<noteq> None"
    and d': "d' = (if d = 0 then defaultExpiration c else d)"
  shows "\<exists>c' e. Set now now' c key v d = Inr c' \<and>
           defaultExpiration c' = defaultExpiration c \<and>
           cleanupInterval c' = cleanupInterval c \<and>
           (\<forall>k. map_index (items c') k =
              (if k = key then Some \<lparr>Value = v, Created = now', Expiration = e\<rparr>
               else map_index (items c) k)) \<and>
           sint e =
             (if 0 < sint d'
              then if sint now + sint d' < 2 ^ 63 then sint now + sint d'
                   else sint now + sint d' - 2 ^ 64
              else 0)"
proof -
  from nn obtain f where f: "items c = Some f" by auto
  define e where "e = (if 0 <s d' then UnixNano (Add now d') else 0)"
  have lo: "- (2 ^ 63) \<le> sint now + sint d'" if "0 < sint d'"
    using int64_lower [of now] that by linarith
  have val: "sint e =
             (if 0 < sint d'
              then if sint now + sint d' < 2 ^ 63 then sint now + sint d'
                   else sint now + sint d' - 2 ^ 64
              else 0)"
    using lo
    by (simp add: e_def Add_def UnixNano_def word_sless_alt sint_add_exact sint_add_wrapped)
  have "Set now now' c key v d =
          Inr (c\<lparr>items := Some (fmupd key \<lparr>Value = v, Created = now', Expiration = e\<rparr> f)\<rparr>)"
    by (simp add: Set_def map_assign_def f Let_def d' e_def)
  with val show ?thesis
    by (auto simp: map_index_def f)
qed

text \<open>
  On the sample cache at the instant 1000, a duration of 0 takes the default of 300: the
  key \<open>old\<close> is bound anew, with the expiration 1300.
\<close>

theorem Set_stores_entry_witness:
  "items sample_cache \<noteq> None \<and>
   (\<exists>c' e. Set 1000 1001 sample_cache ''old'' (dyn 7) 0 = Inr c' \<and>
      map_index (items c') ''old'' = Some \<lparr>Value = dyn 7, Created = 1001, Expiration = e\<rparr> \<and>
      map_index (items c') ''live'' = Some \<lparr>Value = dyn 1, Created = 10, Expiration = 200\<rparr> \<and>
      sint e = 1300)"
proof -
  have d: "(300::int64) = (if (0::int64) = 0 then defaultExpiration sample_cache else 0)"
    by (simp add: sample_cache_def)
  from Set_stores_entry [OF sample_not_nil d, of 1000 1001 "''old''" "dyn 7"]
  obtain c' e where
    s: "Set 1000 1001 sample_cache ''old'' (dyn 7) 0 = Inr c'"
    and i: "\<forall>k. map_index (items c') k =
              (if k = ''old'' then Some \<lparr>Value = dyn 7, Created = 1001, Expiration = e\<rparr>
               else map_index (items sample_cache) k)"
    and e: "sint e = (if 0 < sint (300::int64)
              then if sint (1000::int64) + sint (300::int64) < 2 ^ 63
                   then sint (1000::int64) + sint (300::int64)
                   else sint (1000::int64) + sint (300::int64) - 2 ^ 64
              else 0)"
    by blast
  from e have "sint e = 1300" by simp
  moreover from i have
    "map_index (items c') ''old'' = Some \<lparr>Value = dyn 7, Created = 1001, Expiration = e\<rparr>"
    by simp
  moreover from i have
    "map_index (items c') ''live'' = Some \<lparr>Value = dyn 1, Created = 10, Expiration = 200\<rparr>"
    by (simp add: sample_index)
  ultimately show ?thesis using s sample_not_nil by blast
qed

text \<open>
  The claim as it was stated, that a positive duration always gives the timestamp
  \<open>now + duration\<close>, fails where that timestamp does not fit \<^verbatim>\<open>int64\<close>. At a clock
  reading of 1800000000000000000 (January 2027) and the largest duration,
  9223372036854775807, the entry gets the expiration - 7423372036854775809.
\<close>

theorem Set_overflow_counterexample:
  "Set 1800000000000000000 1800000000000000000 (fst (New 0 0)) ''a'' (dyn (1::int))
       9223372036854775807
     = Inr \<lparr>defaultExpiration = 0, cleanupInterval = 0,
            items = Some (fmupd ''a'' \<lparr>Value = dyn 1, Created = 1800000000000000000,
                                       Expiration = 11023372036854775807\<rparr> fmempty)\<rparr>
   \<and> sint (11023372036854775807 :: int64) = - 7423372036854775809
   \<and> sint (11023372036854775807 :: int64)
        \<noteq> sint (1800000000000000000 :: int64) + sint (9223372036854775807 :: int64)"
  by (simp add: Set_def New_def make_map_def map_assign_def Add_def UnixNano_def word_sless_alt)

subsection \<open>Get\<close>

text \<open>
  Claim C2. \<^verbatim>\<open>Get\<close> returns \<^verbatim>\<open>(nil, false)\<close> for a key that is not in the map, and also for
  a key whose entry has an expiration above 0 that the clock reading exceeds; for any other
  entry it returns the stored value and \<^verbatim>\<open>true\<close>. It leaves the cache as it was.
\<close>

theorem Get_cases:
  "(map_index (items c) key = None \<longrightarrow> fst (Get now c key) = (nil, False)) \<and>
   (\<forall>item. map_index (items c) key = Some item \<longrightarrow>
      fst (Get now c key) =
        (if 0 < sint (Expiration item) \<and> sint (Expiration item) < sint now
         then (nil, False) else (Value item, True))) \<and>
   snd (Get now c key) = c"
  by (simp add: Get_def UnixNano_def word_sless_alt split: option.splits)

theorem Get_cases_witness:
  "Get 100 sample_cache ''none'' = ((nil, False), sample_cache) \<and>
   Get 100 sample_cache ''old'' = ((nil, False), sample_cache) \<and>
   Get 100 sample_cache ''live'' = ((dyn 1, True), sample_cache) \<and>
   Get 100 sample_cache ''keep'' = ((dyn 3, True), sample_cache)"
proof -
  from Get_cases [of sample_cache "''none''" 100]
  have 1: "Get 100 sample_cache ''none'' = ((nil, False), sample_cache)"
    by (simp add: prod_eq_iff sample_index)
  from Get_cases [of sample_cache "''old''" 100]
  have 2: "Get 100 sample_cache ''old'' = ((nil, False), sample_cache)"
    by (simp add: prod_eq_iff sample_index)
  from Get_cases [of sample_cache "''live''" 100]
  have 3: "Get 100 sample_cache ''live'' = ((dyn 1, True), sample_cache)"
    by (simp add: prod_eq_iff sample_index)
  from Get_cases [of sample_cache "''keep''" 100]
  have 4: "Get 100 sample_cache ''keep'' = ((dyn 3, True), sample_cache)"
    by (simp add: prod_eq_iff sample_index)
  from 1 2 3 4 show ?thesis by simp
qed

subsection \<open>The sweep\<close>

text \<open>
  Claim C3. One turn of the collector's loop, on a cache whose map is not \<^verbatim>\<open>nil\<close>, for
  any order of the visit and with the clock at \<open>now\<close> during the scan, goes on with a
  cache that has lost exactly the entries whose expiration is above 0 and below \<open>now\<close>:
  every other entry, among them every entry with the expiration 0, is as it was, and so
  is the configuration.
\<close>

theorem GC_body_removes_expired:
  assumes "items c \<noteq> None" and "map_range (items c) es"
  shows "\<exists>c'. GC_body (at now es) c = Some c' \<and>
           defaultExpiration c' = defaultExpiration c \<and>
           cleanupInterval c' = cleanupInterval c \<and>
           (\<forall>k. map_index (items c') k =
              (case map_index (items c) k of
                 None \<Rightarrow> None
               | Some i \<Rightarrow>
                   if 0 < sint (Expiration i) \<and> sint (Expiration i) < sint now
                   then None else Some i))"
proof (cases "length (fst (expiredKeys (at now es) c)) \<noteq> 0")
  case True
  with assms(1) have "GC_body (at now es) c = Some (clearItems (fst (expiredKeys (at now es) c)) c)"
    by (simp add: GC_body_def Let_def)
  then show ?thesis
    using expiredKeys_member [OF assms(2), of _ now]
    by (auto simp: clearItems_def clearItems_loop_lookup split: option.splits)
next
  case False
  then have empty: "set (fst (expiredKeys (at now es) c)) = {}" by simp
  from False assms(1) have "GC_body (at now es) c = Some c"
    by (simp add: GC_body_def Let_def)
  then show ?thesis
    using expiredKeys_member [OF assms(2), of _ now] empty
    by (auto split: option.splits)
qed

theorem GC_body_removes_expired_witness:
  "items sample_cache \<noteq> None \<and> map_range (items sample_cache) sample_entries \<and>
   (\<exists>c'. GC_body (at 100 sample_entries) sample_cache = Some c' \<and>
      map_index (items c') ''old'' = None \<and>
      map_index (items c') ''live'' = Some \<lparr>Value = dyn 1, Created = 10, Expiration = 200\<rparr> \<and>
      map_index (items c') ''keep'' = Some \<lparr>Value = dyn 3, Created = 30, Expiration = 0\<rparr>)"
proof -
  from GC_body_removes_expired [OF sample_not_nil sample_range, of 100]
  obtain c' where
    g: "GC_body (at 100 sample_entries) sample_cache = Some c'"
    and i: "\<forall>k. map_index (items c') k =
              (case map_index (items sample_cache) k of
                 None \<Rightarrow> None
               | Some i \<Rightarrow>
                   if 0 < sint (Expiration i) \<and> sint (Expiration i) < sint (100::int64)
                   then None else Some i)"
    by blast
  from i have "map_index (items c') ''old'' = None"
    by (simp add: sample_index)
  moreover from i have
    "map_index (items c') ''live'' = Some \<lparr>Value = dyn 1, Created = 10, Expiration = 200\<rparr>"
    by (simp add: sample_index)
  moreover from i have
    "map_index (items c') ''keep'' = Some \<lparr>Value = dyn 3, Created = 30, Expiration = 0\<rparr>"
    by (simp add: sample_index)
  ultimately show ?thesis using g sample_not_nil sample_range by blast
qed

subsection \<open>GetAll\<close>

text \<open>
  Claim C4. For any order of the visit, \<^verbatim>\<open>GetAll\<close> returns a map that binds every key of
  the cache's map to the value stored for it and binds no other key; expirations play no
  part, so an entry that \<^verbatim>\<open>Get\<close> hides is in the result with its stored value. The cache
  is left as it was.
\<close>

theorem GetAll_all_entries:
  assumes "map_range (items c) es"
  shows "(\<forall>k. fmlookup (fst (GetAll es c)) k = map_option Value (map_index (items c) k)) \<and>
         snd (GetAll es c) = c"
proof -
  from assms have dist: "distinct (map fst es)" by (simp add: map_range_def)
  show ?thesis
    using GetAll_loop_lookup [OF dist, of fmempty] map_range_lookup [OF assms]
    by (auto simp: GetAll_def split: option.splits)
qed

text \<open>At the instant 100 \<^verbatim>\<open>Get\<close> hides the entry \<open>old\<close>, and \<^verbatim>\<open>GetAll\<close> returns it.\<close>

theorem GetAll_all_entries_witness:
  "map_range (items sample_cache) sample_entries \<and>
   fmlookup (fst (GetAll sample_entries sample_cache)) ''old'' = Some (dyn 2) \<and>
   fmlookup (fst (GetAll sample_entries sample_cache)) ''live'' = Some (dyn 1) \<and>
   fmlookup (fst (GetAll sample_entries sample_cache)) ''none'' = None \<and>
   fst (Get 100 sample_cache ''old'') = (nil, False)"
proof -
  have "fst (Get 100 sample_cache ''old'') = (nil, False)"
    by (simp add: Get_def sample_index UnixNano_def word_sless_alt)
  with GetAll_all_entries [OF sample_range] sample_range show ?thesis
    by (simp add: sample_index)
qed

subsection \<open>Delete and the errors\<close>

text \<open>
  Claim C5. \<^verbatim>\<open>Delete\<close> returns the error \<^verbatim>\<open>Key not found\<close> exactly when the key is not in
  the map, and then leaves the cache as it was; for a key in the map it returns no error
  and removes that entry and no other. It returns no other error. Of the other operations
  only \<^verbatim>\<open>Set\<close> has a way to fail at all, the panic on a \<^verbatim>\<open>nil\<close> map, and it does not fail on
  a cache whose map is not \<^verbatim>\<open>nil\<close>.
\<close>

theorem Delete_cases:
  "(fst (Delete c key) = Some (errors_New ''Key not found'') \<longleftrightarrow>
      map_index (items c) key = None) \<and>
   (map_index (items c) key = None \<longrightarrow> snd (Delete c key) = c) \<and>
   (map_index (items c) key \<noteq> None \<longrightarrow>
      fst (Delete c key) = None \<and>
      defaultExpiration (snd (Delete c key)) = defaultExpiration c \<and>
      cleanupInterval (snd (Delete c key)) = cleanupInterval c \<and>
      (\<forall>k. map_index (items (snd (Delete c key))) k =
         (if k = key then None else map_index (items c) k))) \<and>
   (fst (Delete c key) = None \<or> fst (Delete c key) = Some (errors_New ''Key not found'')) \<and>
   (items c \<noteq> None \<longrightarrow> (\<exists>c'. Set now now' c k' v d = Inr c'))"
  by (auto simp: Delete_def map_index_def map_delete_def Set_def map_assign_def Let_def
      split: option.splits)

theorem Delete_cases_witness:
  "Delete sample_cache ''none'' = (Some (errors_New ''Key not found''), sample_cache) \<and>
   fst (Delete sample_cache ''old'') = None \<and>
   map_index (items (snd (Delete sample_cache ''old''))) ''old'' = None \<and>
   map_index (items (snd (Delete sample_cache ''old''))) ''keep'' =
     Some \<lparr>Value = dyn 3, Created = 30, Expiration = 0\<rparr> \<and>
   fst (Delete (snd (Delete sample_cache ''old'')) ''old'') = Some (errors_New ''Key not found'') \<and>
   (\<exists>c'. Set 1 2 sample_cache ''k'' nil 5 = Inr c')"
proof -
  note a = Delete_cases [of sample_cache "''none''" 1 2 "''k''" nil 5]
  note b = Delete_cases [of sample_cache "''old''" 1 2 "''k''" nil 5]
  note c = Delete_cases [of "snd (Delete sample_cache ''old'')" "''old''" 1 2 "''k''" nil 5]
  from a have 1: "Delete sample_cache ''none'' = (Some (errors_New ''Key not found''), sample_cache)"
    by (simp add: prod_eq_iff sample_index)
  from b have 2: "fst (Delete sample_cache ''old'') = None"
    and 3: "map_index (items (snd (Delete sample_cache ''old''))) ''old'' = None"
    and 4: "map_index (items (snd (Delete sample_cache ''old''))) ''keep'' =
              Some \<lparr>Value = dyn 3, Created = 30, Expiration = 0\<rparr>"
    by (simp_all add: sample_index)
  from c 3 have 5: "fst (Delete (snd (Delete sample_cache ''old'')) ''old'') =
      Some (errors_New ''Key not found'')"
    by simp
  from a sample_not_nil have 6: "\<exists>c'. Set 1 2 sample_cache ''k'' nil 5 = Inr c'"
    by simp
  from 1 2 3 4 5 6 show ?thesis by simp
qed

subsection \<open>Set followed by Get\<close>

text \<open>
  Claim C6. On a cache whose map is not \<^verbatim>\<open>nil\<close>, a \<^verbatim>\<open>Get\<close> of a key right after a \<^verbatim>\<open>Set\<close>
  of it, at the clock reading the \<^verbatim>\<open>Set\<close> took for the expiration, returns the value set
  and \<^verbatim>\<open>true\<close>: for every key, value and duration, zero and negative durations and
  durations that make the sum wrap among them.
\<close>

theorem Set_then_Get:
  assumes "items c \<noteq> None"
  shows "\<exists>c'. Set now now' c key v d = Inr c' \<and> fst (Get now c' key) = (v, True)"
proof -
  from assms obtain f where f: "items c = Some f" by auto
  define d' where "d' = (if d = 0 then defaultExpiration c else d)"
  have *: "\<not> (0 <s now + d' \<and> now + d' <s now)" if "0 <s d'"
    using that sint_add_pos [of d' now] by (auto simp: word_sless_alt)
  show ?thesis
    using *
    by (auto simp: Set_def Get_def map_assign_def map_index_def f Let_def d'_def
        Add_def UnixNano_def)
qed

theorem Set_then_Get_witness:
  "items sample_cache \<noteq> None \<and>
   (\<exists>c'. Set 1000 1001 sample_cache ''old'' (dyn 7) 0 = Inr c' \<and>
      fst (Get 1000 c' ''old'') = (dyn 7, True)) \<and>
   (\<exists>c'. Set 1000 1001 sample_cache ''new'' (dyn 8) (- 5) = Inr c' \<and>
      fst (Get 1000 c' ''new'') = (dyn 8, True)) \<and>
   (\<exists>c'. Set 1800000000000000000 1800000000000000000 sample_cache ''far'' (dyn 9)
            9223372036854775807 = Inr c' \<and>
      fst (Get 1800000000000000000 c' ''far'') = (dyn 9, True))"
  using sample_not_nil
    Set_then_Get [OF sample_not_nil, of 1000 1001 "''old''" "dyn 7" 0]
    Set_then_Get [OF sample_not_nil, of 1000 1001 "''new''" "dyn 8" "- 5"]
    Set_then_Get [OF sample_not_nil, of 1800000000000000000 1800000000000000000 "''far''"
      "dyn 9" 9223372036854775807]
  by blast

subsection \<open>The default expiration\<close>

text \<open>
  Claim C7. When the default expiration of the cache is some \<open>d\<close> above 0, \<^verbatim>\<open>Set\<close> with the
  duration 0 does, at the same clock readings, what \<^verbatim>\<open>Set\<close> with the duration \<open>d\<close> does:
  the two calls leave the same cache, hence the same entry with the same value and the
  same expiration.
\<close>

theorem Set_zero_duration_is_default:
  assumes "defaultExpiration c = d" and "0 < sint d"
  shows "Set now now' c key v 0 = Set now now' c key v d"
  using assms by (auto simp: Set_def Let_def)

theorem Set_zero_duration_is_default_witness:
  "defaultExpiration sample_cache = 300 \<and> 0 < sint (300 :: int64) \<and>
   Set 1000 1001 sample_cache ''a'' (dyn 7) 0 = Set 1000 1001 sample_cache ''a'' (dyn 7) 300"
proof -
  have 1: "defaultExpiration sample_cache = 300" by (simp add: sample_cache_def)
  have 2: "0 < sint (300 :: int64)" by simp
  from Set_zero_duration_is_default [OF 1 2] 1 2 show ?thesis by simp
qed

subsection \<open>Count\<close>

text \<open>
  Claim C8. \<^verbatim>\<open>Count\<close> returns the number of keys in the map and leaves the cache as it was.
  It takes no clock reading; at every instant \<open>now\<close> its result is the number of keys that
  \<^verbatim>\<open>Get\<close> finds then, plus the number of keys in the map that \<^verbatim>\<open>Get\<close> hides then.
\<close>

theorem Count_counts_all:
  "fst (Count c) = int (card {k. map_index (items c) k \<noteq> None}) \<and>
   fst (Count c) =
     int (card {k. snd (fst (Get now c k))}) +
     int (card {k. map_index (items c) k \<noteq> None \<and> \<not> snd (fst (Get now c k))}) \<and>
   snd (Count c) = c"
proof -
  let ?D = "{k. map_index (items c) k \<noteq> None}"
  let ?L = "{k. snd (fst (Get now c k))}"
  let ?H = "{k. map_index (items c) k \<noteq> None \<and> \<not> snd (fst (Get now c k))}"
  have D: "?D = (case items c of None \<Rightarrow> {} | Some f \<Rightarrow> fset (fmdom f))"
    by (auto simp: map_index_def fmlookup_dom_iff split: option.splits)
  then have fin: "finite ?D" by (simp split: option.splits)
  have len: "map_len (items c) = card ?D"
    unfolding D by (simp add: map_len_def fcard.rep_eq split: option.splits)
  have LD: "?L \<subseteq> ?D" by (auto simp: Get_def split: option.splits)
  have "?D = ?L \<union> ?H" using LD by auto
  moreover have "?L \<inter> ?H = {}" by auto
  moreover have "finite ?L" "finite ?H" using fin LD by (auto intro: finite_subset)
  ultimately have "card ?D = card ?L + card ?H"
    by (simp add: card_Un_disjoint)
  with len show ?thesis by (simp add: Count_def)
qed

text \<open>The sample cache counts 3, the entry \<open>old\<close> that \<^verbatim>\<open>Get\<close> hides at 100 among them.\<close>

theorem Count_counts_all_witness:
  "Count sample_cache = (3, sample_cache) \<and>
   fst (Get 100 sample_cache ''old'') = (nil, False) \<and>
   card {k. map_index (items sample_cache) k \<noteq> None} = 3"
proof -
  have 1: "Count sample_cache = (3, sample_cache)"
    by (simp add: Count_def map_len_def sample_cache_def sample_entries_def fcard_finsert_if)
  have 2: "fst (Get 100 sample_cache ''old'') = (nil, False)"
    by (simp add: Get_def sample_index UnixNano_def word_sless_alt)
  from Count_counts_all [of sample_cache 100] 1
  have 3: "card {k. map_index (items sample_cache) k \<noteq> None} = 3" by simp
  from 1 2 3 show ?thesis by simp
qed

subsection \<open>The collector never returns\<close>

text \<open>
  Claim C9. The collector, which \<^verbatim>\<open>New\<close> starts when the cleanup interval is above 0, never
  leaves its loop: from every cache a program can hold, and for every list of wake-ups,
  the loop is still running after the last of them, on a cache a program can hold, so
  that the next wake-up is one more turn. The \<^verbatim>\<open>return\<close> on a \<^verbatim>\<open>nil\<close> map is never taken.
\<close>

theorem GC_never_returns:
  assumes "reachable c"
  shows "\<exists>c'. GC wakes c = Running c' \<and> reachable c'"
  using assms
proof (induction wakes arbitrary: c)
  case Nil
  then show ?case by simp
next
  case (Cons w wakes)
  from GC_body_reachable [OF Cons.prems] obtain c1
    where c1: "GC_body w c = Some c1" "reachable c1" by blast
  from Cons.IH [OF c1(2)] c1(1) show ?case by simp
qed

theorem GC_never_returns_witness:
  "snd (New 300 60 :: int Cache \<times> bool) \<and>
   reachable (fst (New 300 60 :: int Cache \<times> bool)) \<and>
   (\<exists>c'. GC [[], [], []] (fst (New 300 60 :: int Cache \<times> bool)) = Running c' \<and>
      reachable c')"
proof -
  have 1: "snd (New 300 60 :: int Cache \<times> bool)" by (simp add: New_def word_sless_alt)
  have 2: "reachable (fst (New 300 60 :: int Cache \<times> bool))" by (rule reachable_New)
  from GC_never_returns [OF 2] 1 2 show ?thesis by blast
qed

subsection \<open>Expiry is strict\<close>

text \<open>
  Claim C10. An entry with an expiration above 0 is not expired at the instant equal to
  its expiration: \<^verbatim>\<open>Get\<close> returns its value and \<^verbatim>\<open>true\<close>, and the scan of the collector does
  not select its key. \<^verbatim>\<open>Get\<close> hides it, and the scan selects it, exactly when the clock
  reading is strictly above the expiration.
\<close>

theorem expiry_is_strict:
  assumes "map_index (items c) key = Some item" and "0 < sint (Expiration item)"
    and "map_range (items c) es"
  shows "(now = Expiration item \<longrightarrow>
            fst (Get now c key) = (Value item, True) \<and>
            key \<notin> set (fst (expiredKeys (at now es) c))) \<and>
         (snd (fst (Get now c key)) \<longleftrightarrow> \<not> sint (Expiration item) < sint now) \<and>
         (key \<in> set (fst (expiredKeys (at now es) c)) \<longleftrightarrow>
            sint (Expiration item) < sint now)"
  using assms(1,2) expiredKeys_member [OF assms(3), of key now]
  by (auto simp: Get_def UnixNano_def word_sless_alt)

theorem expiry_is_strict_witness:
  "map_index (items sample_cache) ''live'' = Some \<lparr>Value = dyn 1, Created = 10, Expiration = 200\<rparr> \<and>
   map_range (items sample_cache) sample_entries \<and>
   fst (Get 200 sample_cache ''live'') = (dyn 1, True) \<and>
   ''live'' \<notin> set (fst (expiredKeys (at 200 sample_entries) sample_cache)) \<and>
   \<not> snd (fst (Get 201 sample_cache ''live'')) \<and>
   ''live'' \<in> set (fst (expiredKeys (at 201 sample_entries) sample_cache))"
proof -
  have p: "0 < sint (Expiration \<lparr>Value = dyn (1::int), Created = 10, Expiration = 200\<rparr>)"
    by simp
  note a = expiry_is_strict [OF sample_index(1) p sample_range, of 200]
  note b = expiry_is_strict [OF sample_index(1) p sample_range, of 201]
  from a have 1: "fst (Get 200 sample_cache ''live'') = (dyn 1, True)"
    and 2: "''live'' \<notin> set (fst (expiredKeys (at 200 sample_entries) sample_cache))"
    by simp_all
  from b have 3: "\<not> snd (fst (Get 201 sample_cache ''live''))"
    and 4: "''live'' \<in> set (fst (expiredKeys (at 201 sample_entries) sample_cache))"
    by simp_all
  from 1 2 3 4 sample_index(1) sample_range show ?thesis by simp
qed

end
